theory Spec2Isabelle
  imports Main
begin

section \<open>Strings and tokens\<close>

text \<open>
  A Python \<open>str\<close> is a sequence of Unicode code points; the empty-string marker
  U+03B5 lies outside the 8-bit characters of HOL, so a string is a list of code points.
  A literal of the source is written \<open>py ''...''\<close>. A token is a string of one or two
  code points, as \<open>insert_concatenation\<close> produces them, but the later stages accept any
  list of strings.
\<close>

type_synonym pystr = "nat list"

type_synonym token = pystr

definition py :: "string \<Rightarrow> pystr" where
  "py cs = map of_char cs"

definition bslash :: nat where
  "bslash = 92"

definition epsilon :: pystr where
  "epsilon = [949]"

text \<open>Python's slice \<open>expr[a:b]\<close> for \<open>0 \<le> a\<close> and \<open>0 \<le> b\<close>: empty when \<open>b \<le> a\<close>,
  cut at the end of the string.\<close>

definition slice :: "pystr \<Rightarrow> nat \<Rightarrow> nat \<Rightarrow> pystr" where
  "slice expr a b = take (b - a) (drop a expr)"

section \<open>Step 1: explicit concatenation (both files, same text)\<close>

text \<open>
  The first loop of \<open>insert_concatenation\<close> is the tokenizer: an index \<open>i\<close> runs over
  \<open>expr\<close>; a backslash that has a successor takes it along as one two-character token,
  anything else (a last backslash too) is a one-character token.
\<close>

function tokenize_loop :: "pystr \<Rightarrow> nat \<Rightarrow> token list \<Rightarrow> token list" where
  "tokenize_loop expr i tokens =
     (if i < length expr then
        (if expr ! i = bslash \<and> i + 1 < length expr
         then tokenize_loop expr (i + 2) (tokens @ [slice expr i (i + 2)])
         else tokenize_loop expr (i + 1) (tokens @ [[expr ! i]]))
      else tokens)"
  by pat_completeness auto
termination
  by (relation "measure (\<lambda>(expr, i, tokens). length expr - i)") auto

declare tokenize_loop.simps [simp del]

definition tokenize :: "pystr \<Rightarrow> token list" where
  "tokenize expr = tokenize_loop expr 0 []"

text \<open>
  The second loop, \<open>for j, tok in enumerate(tokens)\<close>: a \<open>.\<close> goes in front of \<open>tok\<close>
  when \<open>j > 0\<close>, the previous token is neither \<open>|\<close> nor \<open>(\<close>, and \<open>tok\<close> is none of
  \<open>|\<close>, \<open>)\<close>, \<open>*\<close>, \<open>+\<close>, \<open>?\<close>.
\<close>

function insert_loop :: "token list \<Rightarrow> nat \<Rightarrow> token list \<Rightarrow> token list" where
  "insert_loop tokens j result =
     (if j < length tokens then
        (let tok = tokens ! j;
             result1 =
               (if j > 0 \<and> tokens ! (j - 1) \<notin> set [py ''|'', py ''(''] \<and>
                   tok \<notin> set [py ''|'', py '')'', py ''*'', py ''+'', py ''?'']
                then result @ [py ''.'']
                else result)
         in insert_loop tokens (j + 1) (result1 @ [tok]))
      else result)"
  by pat_completeness auto
termination
  by (relation "measure (\<lambda>(tokens, j, result). length tokens - j)") auto

declare insert_loop.simps [simp del]

definition insert_concatenation :: "pystr \<Rightarrow> token list" where
  "insert_concatenation expr = insert_loop (tokenize expr) 0 []"

section \<open>Step 2: shunting-yard\<close>

fun precedence :: "token \<Rightarrow> nat" where
  "precedence op =
     (if op \<in> set [py ''*'', py ''+'', py ''?''] then 3
      else if op = py ''.'' then 2
      else if op = py ''|'' then 1
      else 0)"

text \<open>
  The state of the conversion is the output list, the operator stack and the trace
  \<open>pasos\<close>. The stack is kept with its top at the head of the list; Python appends and
  pops at the end, so the snapshot \<open>stack.copy()\<close> of a trace record is \<open>rev stk\<close>.
  A trace record is (label, output snapshot, stack snapshot).
\<close>

type_synonym paso = "pystr \<times> token list \<times> token list"

type_synonym sy_state = "token list \<times> token list \<times> paso list"

text \<open>\<open>token.startswith('\\')\<close>\<close>

fun startswith_bslash :: "token \<Rightarrow> bool" where
  "startswith_bslash [] = False"
| "startswith_bslash (c # cs) = (c = bslash)"

text \<open>
  The operand tests. \<open>str.isalnum\<close> reads the Unicode character database, which is not
  part of the repository: it is the parameter \<open>isalnum\<close>, applied to the token as the
  source applies it (only ever to a token of length 1, by the short-circuit \<open>and\<close>).
  \<open>shunting_yard_regex.py\<close> line 52 and \<open>shunting_yard_simp.py\<close> lines 114-116 differ in
  the last element of the list only.
\<close>

definition is_operand_regex :: "(pystr \<Rightarrow> bool) \<Rightarrow> token \<Rightarrow> bool" where
  "is_operand_regex isalnum token \<longleftrightarrow>
     startswith_bslash token \<or>
     (length token = 1 \<and>
      (isalnum token \<or> token \<in> set [py ''_'', py ''['', py '']'', py ''{'', py ''}'']))"

definition is_operand_simp :: "(pystr \<Rightarrow> bool) \<Rightarrow> token \<Rightarrow> bool" where
  "is_operand_simp isalnum token \<longleftrightarrow>
     startswith_bslash token \<or>
     (length token = 1 \<and>
      (isalnum token \<or>
       token \<in> set [py ''_'', py ''['', py '']'', py ''{'', py ''}'', epsilon]))"

text \<open>\<open>while stack and stack[-1] != '(': op = stack.pop(); output.append(op); ...\<close>\<close>

fun pop_for_paren :: "sy_state \<Rightarrow> sy_state" where
  "pop_for_paren (output, [], pasos) = (output, [], pasos)"
| "pop_for_paren (output, op # stk, pasos) =
     (if op \<noteq> py ''(''
      then pop_for_paren (output @ [op], stk,
             pasos @ [(py ''pop for )'', output @ [op], rev stk)])
      else (output, op # stk, pasos))"

text \<open>The branch \<open>elif token == ')'\<close>.\<close>

definition close_paren :: "sy_state \<Rightarrow> sy_state" where
  "close_paren st =
     (case pop_for_paren st of
        (output, stk, pasos) \<Rightarrow>
          (if stk \<noteq> [] \<and> hd stk = py ''(''
           then (output, tl stk, pasos @ [(py ''pop ('', output, rev (tl stk))])
           else (output, stk, pasos @ [(py ''ignore unmatched )'', output, rev stk)])))"

text \<open>
  \<open>while stack and precedence(stack[-1]) >= precedence(token):\<close>
  \<open>if stack[-1] == '(': break\<close>, then pop to the output.
\<close>

fun pop_ops :: "token \<Rightarrow> sy_state \<Rightarrow> sy_state" where
  "pop_ops token (output, [], pasos) = (output, [], pasos)"
| "pop_ops token (output, op # stk, pasos) =
     (if precedence op \<ge> precedence token then
        (if op = py ''('' then (output, op # stk, pasos)
         else pop_ops token (output @ [op], stk,
                pasos @ [(py ''pop op '' @ op, output @ [op], rev stk)]))
      else (output, op # stk, pasos))"

text \<open>The branch \<open>elif token in ['|','.','*','+','?']\<close>.\<close>

definition push_op :: "token \<Rightarrow> sy_state \<Rightarrow> sy_state" where
  "push_op token st =
     (case pop_ops token st of
        (output, stk, pasos) \<Rightarrow>
          (output, token # stk,
           pasos @ [(py ''push op '' @ token, output, rev (token # stk))]))"

text \<open>The branches that come after the operand test, the same in both files.\<close>

definition sy_other :: "token \<Rightarrow> sy_state \<Rightarrow> sy_state" where
  "sy_other token st =
     (case st of
        (output, stk, pasos) \<Rightarrow>
          (if token = py ''(''
           then (output, token # stk, pasos @ [(py ''push ('', output, rev (token # stk))])
           else if token = py '')'' then close_paren st
           else if token \<in> set [py ''|'', py ''.'', py ''*'', py ''+'', py ''?'']
           then push_op token st
           else (output, stk, pasos @ [(py ''ignore '' @ token, output, rev stk)])))"

definition sy_operand :: "token \<Rightarrow> sy_state \<Rightarrow> sy_state" where
  "sy_operand token st =
     (case st of
        (output, stk, pasos) \<Rightarrow>
          (output @ [token], stk,
           pasos @ [(py ''operand '' @ token, output @ [token], rev stk)]))"

text \<open>One iteration of \<open>for token in tokens\<close>, in each file.\<close>

definition sy_step_regex :: "(pystr \<Rightarrow> bool) \<Rightarrow> token \<Rightarrow> sy_state \<Rightarrow> sy_state" where
  "sy_step_regex isalnum token st =
     (if is_operand_regex isalnum token then sy_operand token st else sy_other token st)"

definition sy_step_simp :: "(pystr \<Rightarrow> bool) \<Rightarrow> token \<Rightarrow> sy_state \<Rightarrow> sy_state" where
  "sy_step_simp isalnum token st =
     (if is_operand_simp isalnum token then sy_operand token st else sy_other token st)"

fun sy_loop_regex :: "(pystr \<Rightarrow> bool) \<Rightarrow> token list \<Rightarrow> sy_state \<Rightarrow> sy_state" where
  "sy_loop_regex isalnum [] st = st"
| "sy_loop_regex isalnum (token # tokens) st =
     sy_loop_regex isalnum tokens (sy_step_regex isalnum token st)"

fun sy_loop_simp :: "(pystr \<Rightarrow> bool) \<Rightarrow> token list \<Rightarrow> sy_state \<Rightarrow> sy_state" where
  "sy_loop_simp isalnum [] st = st"
| "sy_loop_simp isalnum (token # tokens) st =
     sy_loop_simp isalnum tokens (sy_step_simp isalnum token st)"

text \<open>\<open>while stack: op = stack.pop(); output.append(op); pasos.append(...)\<close>\<close>

fun pop_end :: "sy_state \<Rightarrow> sy_state" where
  "pop_end (output, [], pasos) = (output, [], pasos)"
| "pop_end (output, op # stk, pasos) =
     pop_end (output @ [op], stk, pasos @ [(py ''pop end '' @ op, output @ [op], rev stk)])"

text \<open>\<open>shunting_yard\<close> returns the pair (output, pasos).\<close>

definition shunting_yard_regex :: "(pystr \<Rightarrow> bool) \<Rightarrow> token list \<Rightarrow> token list \<times> paso list" where
  "shunting_yard_regex isalnum tokens =
     (case pop_end (sy_loop_regex isalnum tokens ([], [], [])) of
        (output, stk, pasos) \<Rightarrow> (output, pasos))"

definition shunting_yard_simp :: "(pystr \<Rightarrow> bool) \<Rightarrow> token list \<Rightarrow> token list \<times> paso list" where
  "shunting_yard_simp isalnum tokens =
     (case pop_end (sy_loop_simp isalnum tokens ([], [], [])) of
        (output, stk, pasos) \<Rightarrow> (output, pasos))"

section \<open>Step 3: the syntax tree (both files, same text)\<close>

datatype RegexNode =
  RegexNode (node_value: pystr) (left: "RegexNode option") (right: "RegexNode option")

text \<open>\<open>stack.pop()\<close> on an empty list raises IndexError, which nothing in the source
  catches: it reaches the caller of \<open>build_syntax_tree\<close>.\<close>

datatype py_error = IndexError

text \<open>One iteration of \<open>for tok in postfix_tokens\<close>; the operand stack has its top at the head.\<close>

fun build_step :: "token \<Rightarrow> RegexNode list \<Rightarrow> py_error + RegexNode list" where
  "build_step tok stack =
     (if tok \<in> set [py ''*'', py ''+'', py ''?''] then
        (case stack of
           [] \<Rightarrow> Inl IndexError
         | child # stack1 \<Rightarrow> Inr (RegexNode tok (Some child) None # stack1))
      else if tok \<in> set [py ''.'', py ''|''] then
        (case stack of
           [] \<Rightarrow> Inl IndexError
         | rnode # stack1 \<Rightarrow>
             (case stack1 of
                [] \<Rightarrow> Inl IndexError
              | lnode # stack2 \<Rightarrow> Inr (RegexNode tok (Some lnode) (Some rnode) # stack2)))
      else Inr (RegexNode tok None None # stack))"

fun build_loop :: "token list \<Rightarrow> RegexNode list \<Rightarrow> py_error + RegexNode list" where
  "build_loop [] stack = Inr stack"
| "build_loop (tok # toks) stack =
     (case build_step tok stack of
        Inl e \<Rightarrow> Inl e
      | Inr stack1 \<Rightarrow> build_loop toks stack1)"

text \<open>\<open>return stack.pop()\<close>\<close>

definition build_syntax_tree :: "token list \<Rightarrow> py_error + RegexNode" where
  "build_syntax_tree postfix_tokens =
     (case build_loop postfix_tokens [] of
        Inl e \<Rightarrow> Inl e
      | Inr stack \<Rightarrow> (case stack of [] \<Rightarrow> Inl IndexError | node # stack1 \<Rightarrow> Inr node))"

text \<open>
  The driver \<open>procesar_archivo\<close> of \<open>shunting_yard_regex.py\<close> (lines 139-150), without
  its printing and rendering: tokens, postfix, tree.
\<close>

definition parse_regex :: "(pystr \<Rightarrow> bool) \<Rightarrow> pystr \<Rightarrow> py_error + RegexNode" where
  "parse_regex isalnum expr =
     build_syntax_tree (fst (shunting_yard_regex isalnum (insert_concatenation expr)))"

section \<open>Step 0: expanding + and ? (shunting\_yard\_simp.py)\<close>

text \<open>
  The local function \<open>is_escaped(pos)\<close> counts the backslashes that stand directly before
  \<open>expr[pos]\<close>, walking \<open>k\<close> down from \<open>pos - 1\<close> while \<open>k >= 0\<close>; the first argument of the
  loop below is \<open>k + 1\<close>, so that it stays a natural number.
\<close>

fun is_escaped_loop :: "pystr \<Rightarrow> nat \<Rightarrow> nat \<Rightarrow> nat" where
  "is_escaped_loop expr 0 cnt = cnt"
| "is_escaped_loop expr (Suc k) cnt =
     (if expr ! k = bslash then is_escaped_loop expr k (cnt + 1) else cnt)"

definition is_escaped :: "pystr \<Rightarrow> nat \<Rightarrow> bool" where
  "is_escaped expr pos \<longleftrightarrow> is_escaped_loop expr pos 0 mod 2 = 1"

text \<open>
  The inner loop of the group branch, \<open>while i < n and depth > 0\<close>; it returns the final
  \<open>i\<close>, the only variable read afterwards.
\<close>

function scan_group :: "pystr \<Rightarrow> nat \<Rightarrow> nat \<Rightarrow> nat" where
  "scan_group expr i depth =
     (if i < length expr \<and> depth > 0 then
        (if expr ! i = of_char CHR ''('' \<and> \<not> is_escaped expr i
         then scan_group expr (i + 1) (depth + 1)
         else if expr ! i = of_char CHR '')'' \<and> \<not> is_escaped expr i
         then scan_group expr (i + 1) (depth - 1)
         else scan_group expr (i + 1) depth)
      else i)"
  by pat_completeness auto
termination
  by (relation "measure (\<lambda>(expr, i, depth). length expr - i)") auto

declare scan_group.simps [simp del]

lemma scan_group_ge: "i \<le> scan_group expr i depth"
proof (induction expr i depth rule: scan_group.induct)
  case (1 expr i depth)
  show ?case
    using "1.IH" by (subst scan_group.simps) (auto dest: Suc_leD)
qed

lemma scan_group_measure:
  "i < length expr \<Longrightarrow> length expr - scan_group expr (Suc i) depth < length expr - i"
  using scan_group_ge [of "Suc i" expr depth] by arith

lemma scan_group_measure_Suc:
  "i < length expr \<Longrightarrow>
   length expr - Suc (scan_group expr (Suc i) depth) < length expr - i"
  using scan_group_ge [of "Suc i" expr depth] by arith

text \<open>
  The main loop \<open>while i < n\<close> with the accumulator \<open>out\<close>. The three branches give the
  unit \<open>token\<close> and the index after it; the group branch calls the function itself on
  \<open>inner = expr[start+1:i-1]\<close>. Then a following \<open>+\<close> or \<open>?\<close> is consumed.
\<close>

function expand_loop :: "pystr \<Rightarrow> nat \<Rightarrow> pystr \<Rightarrow> pystr" where
  "expand_loop expr i out =
     (if i < length expr then
        (let (token, i1) =
               (if expr ! i = bslash \<and> i + 1 < length expr
                then (slice expr i (i + 2), i + 2)
                else if expr ! i = of_char CHR ''('' \<and> \<not> is_escaped expr i
                then (let i2 = scan_group expr (i + 1) 1;
                          inner = slice expr (i + 1) (i2 - 1)
                      in (py ''('' @ expand_loop inner 0 [] @ py '')'', i2))
                else ([expr ! i], i + 1))
         in if i1 < length expr \<and> \<not> is_escaped expr i1 \<and>
               [expr ! i1] \<in> set [py ''+'', py ''?'']
            then (let op = [expr ! i1]
                  in if op = py ''+''
                     then expand_loop expr (i1 + 1) (out @ token @ token @ py ''*'')
                     else expand_loop expr (i1 + 1)
                            (out @ py ''('' @ token @ py ''|'' @ epsilon @ py '')''))
            else expand_loop expr i1 (out @ token))
      else out)"
  by pat_completeness auto
termination
  apply (relation "measures [\<lambda>(expr, i, out). length expr, \<lambda>(expr, i, out). length expr - i]")
  apply (auto simp: slice_def Let_def scan_group_measure scan_group_measure_Suc split: if_splits)
  done

declare expand_loop.simps [simp del]

definition expand_plus_question :: "pystr \<Rightarrow> pystr" where
  "expand_plus_question expr = expand_loop expr 0 []"



text \<open>
  The driver of \<open>shunting_yard_simp.py\<close> (lines 200-218): the expansion runs first.
\<close>

definition parse_simp :: "(pystr \<Rightarrow> bool) \<Rightarrow> pystr \<Rightarrow> py_error + RegexNode" where
  "parse_simp isalnum expr =
     build_syntax_tree
       (fst (shunting_yard_simp isalnum (insert_concatenation (expand_plus_question expr))))"

text \<open>
  A table for the examples: \<open>str.isalnum\<close> is true of a non-empty string of ASCII
  digits, ASCII letters and the Greek small letter epsilon (U+03B5, category Ll). The
  theorems below hold for every table; this one instantiates them.
\<close>

definition isalnum_basic :: "pystr \<Rightarrow> bool" where
  "isalnum_basic s \<longleftrightarrow>
     s \<noteq> [] \<and>
     list_all (\<lambda>c. (48 \<le> c \<and> c \<le> 57) \<or> (65 \<le> c \<and> c \<le> 90) \<or> (97 \<le> c \<and> c \<le> 122) \<or> c = 949) s"

text \<open>
  What the examples need of the table: on every one-character ASCII string
  \<open>str.isalnum\<close> is true exactly of the digits and the letters.
\<close>

definition ascii_alnum :: "nat \<Rightarrow> bool" where
  "ascii_alnum c \<longleftrightarrow> (48 \<le> c \<and> c \<le> 57) \<or> (65 \<le> c \<and> c \<le> 90) \<or> (97 \<le> c \<and> c \<le> 122)"

definition agrees_on_ascii :: "(pystr \<Rightarrow> bool) \<Rightarrow> bool" where
  "agrees_on_ascii isalnum \<longleftrightarrow> list_all (\<lambda>c. isalnum [c] = ascii_alnum c) [0..<128]"

text \<open>
  For the statement about the expander's output. A position holds an unescaped
  quantifier when its character is \<open>+\<close> or \<open>?\<close> and \<open>is_escaped\<close> is false of it. It holds
  a postfix quantifier, one that stands after a unit, when moreover a character stands
  before it that is not an unescaped \<open>(\<close>: to the expander every character but the
  opening parenthesis of a group ends a unit. It holds a stacked quantifier when the
  character before it is an unescaped quantifier too.
\<close>

definition is_quantifier :: "nat \<Rightarrow> bool" where
  "is_quantifier c \<longleftrightarrow> [c] \<in> set [py ''+'', py ''?'']"

definition unescaped_quantifier :: "pystr \<Rightarrow> nat \<Rightarrow> bool" where
  "unescaped_quantifier s p \<longleftrightarrow> is_quantifier (s ! p) \<and> \<not> is_escaped s p"

definition quantifier_free :: "pystr \<Rightarrow> bool" where
  "quantifier_free s \<longleftrightarrow> list_all (\<lambda>p. \<not> unescaped_quantifier s p) [0..<length s]"

definition postfix_quantifier :: "pystr \<Rightarrow> nat \<Rightarrow> bool" where
  "postfix_quantifier s p \<longleftrightarrow>
     unescaped_quantifier s p \<and> p > 0 \<and>
     \<not> ([s ! (p - 1)] = py ''('' \<and> \<not> is_escaped s (p - 1))"

definition no_postfix_quantifier :: "pystr \<Rightarrow> bool" where
  "no_postfix_quantifier s \<longleftrightarrow> list_all (\<lambda>p. \<not> postfix_quantifier s p) [0..<length s]"

definition stacked_quantifier :: "pystr \<Rightarrow> nat \<Rightarrow> bool" where
  "stacked_quantifier s p \<longleftrightarrow>
     unescaped_quantifier s p \<and> p > 0 \<and> unescaped_quantifier s (p - 1)"

definition no_stacked_quantifier :: "pystr \<Rightarrow> bool" where
  "no_stacked_quantifier s \<longleftrightarrow> list_all (\<lambda>p. \<not> stacked_quantifier s p) [0..<length s]"

text \<open>A string ends closed when the number of backslashes at its end is even, so that
  what is appended to it keeps its own reading.\<close>

definition closed_end :: "pystr \<Rightarrow> bool" where
  "closed_end s \<longleftrightarrow> \<not> is_escaped s (length s)"

definition clean :: "pystr \<Rightarrow> bool" where
  "clean s \<longleftrightarrow> quantifier_free s \<and> closed_end s"

text \<open>
  For the proof: a tidy string has no postfix quantifier and ends closed; a plain string
  is tidy, not empty, and does not begin with a quantifier character.
\<close>

definition tidy :: "pystr \<Rightarrow> bool" where
  "tidy s \<longleftrightarrow> no_postfix_quantifier s \<and> closed_end s"

definition plain :: "pystr \<Rightarrow> bool" where
  "plain s \<longleftrightarrow> tidy s \<and> s \<noteq> [] \<and> \<not> is_quantifier (hd s)"

section \<open>Auxiliary facts\<close>

lemma agrees_on_asciiD:
  "agrees_on_ascii isalnum \<Longrightarrow> c < 128 \<Longrightarrow> isalnum [c] = ascii_alnum c"
  by (simp add: agrees_on_ascii_def list_all_iff)

lemma agrees_on_ascii_basic: "agrees_on_ascii isalnum_basic"
  by (auto simp: agrees_on_ascii_def list_all_iff isalnum_basic_def ascii_alnum_def)

lemma isalnum_basic_epsilon: "isalnum_basic epsilon"
  by (simp add: isalnum_basic_def epsilon_def)

lemmas sy_defs =
  shunting_yard_regex_def shunting_yard_simp_def sy_step_regex_def sy_step_simp_def
  is_operand_regex_def is_operand_simp_def sy_operand_def sy_other_def push_op_def
  close_paren_def py_def bslash_def epsilon_def ascii_alnum_def

lemmas ic_defs =
  insert_concatenation_def tokenize_def tokenize_loop.simps insert_loop.simps py_def
  bslash_def slice_def Let_def

lemma fst_pop_end_aux: "fst (pop_end (out, stk, ps)) = out @ stk"
  by (induction stk arbitrary: out ps) auto

lemma fst_pop_end: "fst (pop_end st) = fst st @ fst (snd st)"
  by (cases st) (simp add: fst_pop_end_aux)

lemma fst_shunting_yard_regex:
  "fst (shunting_yard_regex isalnum tokens) =
     fst (sy_loop_regex isalnum tokens ([], [], [])) @
     fst (snd (sy_loop_regex isalnum tokens ([], [], [])))"
  using fst_pop_end [of "sy_loop_regex isalnum tokens ([], [], [])"]
  by (cases "pop_end (sy_loop_regex isalnum tokens ([], [], []))")
     (simp add: shunting_yard_regex_def)

lemma fst_shunting_yard_simp:
  "fst (shunting_yard_simp isalnum tokens) =
     fst (sy_loop_simp isalnum tokens ([], [], [])) @
     fst (snd (sy_loop_simp isalnum tokens ([], [], [])))"
  using fst_pop_end [of "sy_loop_simp isalnum tokens ([], [], [])"]
  by (cases "pop_end (sy_loop_simp isalnum tokens ([], [], []))")
     (simp add: shunting_yard_simp_def)

lemma is_operand_eq:
  "isalnum epsilon \<Longrightarrow> is_operand_simp isalnum = is_operand_regex isalnum"
  by (auto simp: is_operand_simp_def is_operand_regex_def fun_eq_iff epsilon_def)

lemma sy_loop_eq:
  "isalnum epsilon \<Longrightarrow> sy_loop_simp isalnum tokens st = sy_loop_regex isalnum tokens st"
  by (induction tokens arbitrary: st)
     (simp_all add: sy_step_simp_def sy_step_regex_def is_operand_eq)

lemma build_loop_append:
  "build_loop (xs @ ys) stack =
     (case build_loop xs stack of Inl e \<Rightarrow> Inl e | Inr stack1 \<Rightarrow> build_loop ys stack1)"
  by (induction xs arbitrary: stack) (auto split: sum.splits)

lemma build_loop_literals:
  "set toks \<inter> set [py ''*'', py ''+'', py ''?'', py ''.'', py ''|''] = {} \<Longrightarrow>
   build_loop toks stack = Inr (map (\<lambda>t. RegexNode t None None) (rev toks) @ stack)"
  by (induction toks arbitrary: stack) auto

lemma is_escaped_loop_Suc:
  "is_escaped_loop expr k (Suc cnt) = Suc (is_escaped_loop expr k cnt)"
  by (induction k arbitrary: cnt) auto

lemma is_escaped_0: "is_escaped expr 0 = False"
  by (simp add: is_escaped_def)

lemma is_escaped_Suc:
  "is_escaped expr (Suc k) = (expr ! k = bslash \<and> \<not> is_escaped expr k)"
  by (auto simp: is_escaped_def is_escaped_loop_Suc mod_Suc)

lemma slice_pair:
  assumes "Suc i < length expr"
  shows "slice expr i (Suc (Suc i)) = [expr ! i, expr ! Suc i]"
proof -
  have "Suc (Suc i) - i = Suc (Suc 0)" by simp
  moreover have "drop i expr = expr ! i # expr ! Suc i # drop (Suc (Suc i)) expr"
    using assms Cons_nth_drop_Suc [of i expr] Cons_nth_drop_Suc [of "Suc i" expr] by simp
  ultimately show ?thesis by (simp add: slice_def)
qed

lemma tokenize_loop_concat:
  "i \<le> length expr \<Longrightarrow> concat (tokenize_loop expr i tokens) = concat tokens @ drop i expr"
proof (induction expr i tokens rule: tokenize_loop.induct)
  case (1 expr i tokens)
  show ?case
  proof (cases "i < length expr")
    case False
    with "1.prems" show ?thesis by (simp add: tokenize_loop.simps)
  next
    case True
    show ?thesis
    proof (cases "expr ! i = bslash \<and> i + 1 < length expr")
      case pair: True
      then have "drop i expr = expr ! i # expr ! (i + 1) # drop (i + 2) expr"
        using Cons_nth_drop_Suc [of i expr] Cons_nth_drop_Suc [of "Suc i" expr] by simp
      then show ?thesis
        using True pair "1.IH"(1) by (subst tokenize_loop.simps) (simp add: slice_pair)
    next
      case single: False
      have "drop i expr = expr ! i # drop (i + 1) expr"
        using Cons_nth_drop_Suc [of i expr] True by simp
      then show ?thesis
        using True single "1.IH"(2) by (subst tokenize_loop.simps) auto
    qed
  qed
qed

lemma tokenize_concat: "concat (tokenize expr) = expr"
  by (simp add: tokenize_def tokenize_loop_concat)

lemma tokenize_loop_last:
  assumes "i < length expr" "expr ! (length expr - 1) = bslash"
    "\<not> is_escaped expr (length expr - 1)" "\<not> is_escaped expr i"
  shows "\<exists>ts. tokenize_loop expr i tokens = ts @ [[bslash]]"
  using assms
proof (induction expr i tokens rule: tokenize_loop.induct)
  case (1 expr i tokens)
  let ?n = "length expr"
  show ?case
  proof (cases "Suc i = ?n")
    case True
    then have "expr ! i = bslash"
      using "1.prems"(2) by (metis diff_Suc_1)
    moreover have "tokenize_loop expr (Suc i) (tokens @ [[bslash]]) = tokens @ [[bslash]]"
      using True by (subst tokenize_loop.simps) simp
    ultimately have "tokenize_loop expr i tokens = tokens @ [[bslash]]"
      using True "1.prems"(1) by (subst tokenize_loop.simps) simp
    then show ?thesis by blast
  next
    case False
    then have lt: "Suc i < ?n" using "1.prems"(1) by simp
    show ?thesis
    proof (cases "expr ! i = bslash")
      case True
      have "Suc (Suc i) \<noteq> ?n"
      proof
        assume "Suc (Suc i) = ?n"
        then have "?n - 1 = Suc i" by simp
        with "1.prems"(3,4) True show False by (simp add: is_escaped_Suc)
      qed
      then have lt2: "i + 2 < ?n" using lt by simp
      have esc: "\<not> is_escaped expr (i + 2)"
        using True "1.prems"(4) by (simp add: is_escaped_Suc)
      have "\<exists>ts. tokenize_loop expr (i + 2) (tokens @ [slice expr i (i + 2)]) = ts @ [[bslash]]"
        using "1.IH"(1) [OF "1.prems"(1) _ lt2 "1.prems"(2,3) esc] True lt by simp
      then show ?thesis
        using True lt "1.prems"(1) by (subst tokenize_loop.simps) simp
    next
      case False
      have esc: "\<not> is_escaped expr (i + 1)"
        using False by (simp add: is_escaped_Suc)
      have "\<exists>ts. tokenize_loop expr (i + 1) (tokens @ [[expr ! i]]) = ts @ [[bslash]]"
        using "1.IH"(2) [OF "1.prems"(1) _ _ "1.prems"(2,3) esc] False lt by simp
      then show ?thesis
        using False lt "1.prems"(1) by (subst tokenize_loop.simps) simp
    qed
  qed
qed

lemma scan_group_le: "i \<le> length expr \<Longrightarrow> scan_group expr i depth \<le> length expr"
proof (induction expr i depth rule: scan_group.induct)
  case (1 expr i depth)
  show ?case
    using "1.IH" "1.prems" by (subst scan_group.simps) auto
qed

lemma scan_group_stops_after_paren:
  "depth > 0 \<Longrightarrow> scan_group expr i depth < length expr \<Longrightarrow>
   expr ! (scan_group expr i depth - 1) = of_char CHR '')''"
proof (induction expr i depth rule: scan_group.induct)
  case (1 expr i depth)
  have lt: "i < length expr"
    using "1.prems" by (subst (asm) scan_group.simps) (auto split: if_splits)
  show ?case
  proof (cases "expr ! i = of_char CHR ''('' \<and> \<not> is_escaped expr i")
    case True
    then have eq: "scan_group expr i depth = scan_group expr (i + 1) (depth + 1)"
      using lt "1.prems"(1) by (subst scan_group.simps) simp
    show ?thesis
      using "1.IH"(1) [OF _ True] lt "1.prems" unfolding eq by simp
  next
    case nopen: False
    show ?thesis
    proof (cases "expr ! i = of_char CHR '')'' \<and> \<not> is_escaped expr i")
      case True
      then have eq: "scan_group expr i depth = scan_group expr (i + 1) (depth - 1)"
        using lt "1.prems"(1) nopen by (subst scan_group.simps) simp
      show ?thesis
      proof (cases "depth - 1 = 0")
        case z: True
        then have "scan_group expr (i + 1) (depth - 1) = i + 1"
          by (subst scan_group.simps) simp
        then show ?thesis using eq True by simp
      next
        case False
        then show ?thesis
          using "1.IH"(2) [OF _ nopen True] lt "1.prems" unfolding eq by simp
      qed
    next
      case False
      then have eq: "scan_group expr i depth = scan_group expr (i + 1) depth"
        using lt "1.prems"(1) nopen by (subst scan_group.simps) auto
      show ?thesis
        using "1.IH"(3) [OF _ nopen False] lt "1.prems" unfolding eq by simp
    qed
  qed
qed

lemma is_escaped_append_left:
  "j \<le> length xs \<Longrightarrow> is_escaped (xs @ ys) j = is_escaped xs j"
  by (induction j) (simp_all add: is_escaped_0 is_escaped_Suc nth_append)

lemma is_escaped_append_right:
  "closed_end xs \<Longrightarrow> is_escaped (xs @ ys) (length xs + p) = is_escaped ys p"
proof (induction p)
  case 0
  then show ?case
    using is_escaped_append_left [of "length xs" xs ys] by (simp add: closed_end_def is_escaped_0)
next
  case (Suc p)
  then show ?case by (simp add: is_escaped_Suc nth_append)
qed

lemma is_escaped_take:
  "j \<le> m \<Longrightarrow> j \<le> length xs \<Longrightarrow> is_escaped (take m xs) j = is_escaped xs j"
  by (induction j) (simp_all add: is_escaped_0 is_escaped_Suc)

lemma is_escaped_drop:
  assumes "k > 0" "k \<le> length xs" "xs ! (k - 1) \<noteq> bslash" "k + j \<le> length xs"
  shows "is_escaped (drop k xs) j = is_escaped xs (k + j)"
  using assms(4)
proof (induction j)
  case 0
  obtain k' where "k = Suc k'" using assms(1) by (cases k) auto
  with assms(3) show ?case by (simp add: is_escaped_0 is_escaped_Suc)
next
  case (Suc j)
  then show ?case by (simp add: is_escaped_Suc)
qed


lemma quantifier_free_iff:
  "quantifier_free s \<longleftrightarrow> (\<forall>p < length s. \<not> unescaped_quantifier s p)"
  by (auto simp: quantifier_free_def list_all_iff)

lemma closed_end_append:
  "closed_end xs \<Longrightarrow> closed_end ys \<Longrightarrow> closed_end (xs @ ys)"
  using is_escaped_append_right [of xs ys "length ys"] by (simp add: closed_end_def)

lemma closed_end_snoc: "c \<noteq> bslash \<Longrightarrow> closed_end (xs @ [c])"
  by (simp add: closed_end_def is_escaped_Suc)

lemma quantifier_free_snoc:
  "quantifier_free xs \<Longrightarrow> \<not> is_quantifier c \<Longrightarrow> quantifier_free (xs @ [c])"
  using is_escaped_append_left [of _ xs "[c]"]
  by (auto simp: quantifier_free_iff unescaped_quantifier_def nth_append less_Suc_eq)

lemma clean_single: "\<not> is_quantifier c \<Longrightarrow> c \<noteq> bslash \<Longrightarrow> clean [c]"
  using quantifier_free_snoc [of "[]" c] closed_end_snoc [of c "[]"]
  by (simp add: clean_def quantifier_free_def)

lemma clean_consts:
  "clean []" "clean (py ''('')" "clean (py '')'')" "clean (py ''*'')" "clean (py ''|'')"
  "clean epsilon"
  by (simp_all add: clean_def quantifier_free_def closed_end_def is_escaped_def
      unescaped_quantifier_def is_quantifier_def py_def epsilon_def bslash_def)

lemma clean_pair: "clean [bslash, c]"
  by (simp add: clean_def quantifier_free_def closed_end_def unescaped_quantifier_def
      is_escaped_def is_quantifier_def py_def bslash_def)

lemma no_postfix_quantifier_iff:
  "no_postfix_quantifier s \<longleftrightarrow> (\<forall>p < length s. \<not> postfix_quantifier s p)"
  by (auto simp: no_postfix_quantifier_def list_all_iff)

lemma no_postfix_quantifier_append:
  assumes "no_postfix_quantifier xs" "closed_end xs" "no_postfix_quantifier ys"
    and "ys \<noteq> [] \<longrightarrow> \<not> is_quantifier (hd ys)"
  shows "no_postfix_quantifier (xs @ ys)"
  unfolding no_postfix_quantifier_iff
proof (intro allI impI)
  fix p assume p: "p < length (xs @ ys)"
  show "\<not> postfix_quantifier (xs @ ys) p"
  proof (cases "p < length xs")
    case True
    then show ?thesis
      using assms(1) is_escaped_append_left [of p xs ys] is_escaped_append_left [of "p - 1" xs ys]
      by (auto simp: no_postfix_quantifier_iff postfix_quantifier_def unescaped_quantifier_def
          nth_append)
  next
    case False
    then obtain q where q: "p = length xs + q" "q < length ys"
      using p by (metis add_diff_inverse_nat length_append nat_add_left_cancel_less)
    show ?thesis
    proof (cases q)
      case 0
      then have "(xs @ ys) ! p = hd ys" "ys \<noteq> []"
        using q by (auto simp: nth_append hd_conv_nth)
      then show ?thesis
        using assms(4) by (simp add: postfix_quantifier_def unescaped_quantifier_def)
    next
      case (Suc q')
      then have "p - 1 = length xs + q'" "q' < length ys" using q by simp_all
      then show ?thesis
        using assms(3) q Suc is_escaped_append_right [OF assms(2), of ys q]
          is_escaped_append_right [OF assms(2), of ys q']
        by (auto simp: no_postfix_quantifier_iff postfix_quantifier_def
            unescaped_quantifier_def nth_append)
    qed
  qed
qed

lemma no_postfix_quantifier_open:
  assumes "no_postfix_quantifier t"
  shows "no_postfix_quantifier (py ''('' @ t)"
  unfolding no_postfix_quantifier_iff
proof (intro allI impI)
  fix p assume p: "p < length (py ''('' @ t)"
  have ce: "closed_end [40]" by (simp add: closed_end_def is_escaped_def bslash_def)
  have e: "py ''('' = [40]" by (simp add: py_def)
  show "\<not> postfix_quantifier (py ''('' @ t) p"
  proof (cases p)
    case 0
    then show ?thesis by (simp add: postfix_quantifier_def)
  next
    case (Suc q)
    then have q: "q < length t" using p by (simp add: e)
    show ?thesis
    proof (cases q)
      case 0
      then show ?thesis
        using Suc by (simp add: postfix_quantifier_def e is_escaped_0)
    next
      case (Suc q')
      then show ?thesis
        using assms q \<open>p = Suc q\<close> is_escaped_append_right [OF ce, of t q]
          is_escaped_append_right [OF ce, of t q']
        by (auto simp: no_postfix_quantifier_iff postfix_quantifier_def
            unescaped_quantifier_def e)
    qed
  qed
qed

lemma no_postfix_quantifier_snoc:
  "no_postfix_quantifier xs \<Longrightarrow> \<not> is_quantifier c \<Longrightarrow> no_postfix_quantifier (xs @ [c])"
  using is_escaped_append_left [of _ xs "[c]"]
  by (auto simp: no_postfix_quantifier_iff postfix_quantifier_def unescaped_quantifier_def
      nth_append less_Suc_eq)

lemma quantifier_free_no_postfix: "quantifier_free s \<Longrightarrow> no_postfix_quantifier s"
  by (simp add: quantifier_free_iff no_postfix_quantifier_iff postfix_quantifier_def)

lemma tidy_append_plain: "tidy xs \<Longrightarrow> plain ys \<Longrightarrow> tidy (xs @ ys)"
  by (simp add: tidy_def plain_def no_postfix_quantifier_append closed_end_append)

lemma plain_append: "plain xs \<Longrightarrow> plain ys \<Longrightarrow> plain (xs @ ys)"
  using tidy_append_plain [of xs ys] by (simp add: plain_def)

lemma plain_consts:
  "plain (py ''('')" "plain (py '')'')" "plain (py ''*'')" "plain (py ''|'')" "plain epsilon"
  using clean_consts
  by (simp_all add: plain_def tidy_def clean_def quantifier_free_no_postfix)
     (simp_all add: py_def epsilon_def is_quantifier_def)

lemma plain_pair: "plain [bslash, c]"
  using clean_pair [of c]
  by (simp add: plain_def tidy_def clean_def quantifier_free_no_postfix)
     (simp add: is_quantifier_def py_def bslash_def)

lemma plain_single: "\<not> is_quantifier c \<Longrightarrow> c \<noteq> bslash \<Longrightarrow> plain [c]"
  using clean_single [of c] by (simp add: plain_def tidy_def clean_def quantifier_free_no_postfix)

lemma plain_group:
  assumes "no_postfix_quantifier t"
  shows "plain (py ''('' @ t @ py '')'')"
proof -
  have "no_postfix_quantifier ((py ''('' @ t) @ [41])"
    using no_postfix_quantifier_open [OF assms]
    by (rule no_postfix_quantifier_snoc) (simp add: is_quantifier_def py_def)
  moreover have "closed_end ((py ''('' @ t) @ [41])"
    by (rule closed_end_snoc) (simp add: bslash_def)
  ultimately show ?thesis by (simp add: plain_def tidy_def py_def is_quantifier_def)
qed

lemma tidy_quantifier: "is_quantifier c \<Longrightarrow> tidy [c]"
  by (auto simp: tidy_def no_postfix_quantifier_def postfix_quantifier_def closed_end_def
      is_escaped_def is_quantifier_def py_def bslash_def)

lemma no_stacked_quantifierD:
  "no_stacked_quantifier expr \<Longrightarrow> Suc p < length expr \<Longrightarrow>
   unescaped_quantifier expr p \<Longrightarrow> \<not> unescaped_quantifier expr (Suc p)"
  by (auto simp: no_stacked_quantifier_def list_all_iff stacked_quantifier_def)

lemma no_stacked_quantifier_slice:
  assumes "no_stacked_quantifier expr" "i < length expr" "[expr ! i] = py ''(''"
  shows "no_stacked_quantifier (slice expr (Suc i) b)"
proof -
  let ?s = "slice expr (Suc i) b"
  have nb: "expr ! i \<noteq> bslash" using assms(3) by (simp add: py_def bslash_def)
  have uq: "unescaped_quantifier ?s p = unescaped_quantifier expr (Suc i + p)"
    and len: "Suc i + p < length expr"
    if "p < length ?s" for p
  proof -
    from that have b: "p < length expr - Suc i" "p < b - Suc i" by (simp_all add: slice_def)
    then show l: "Suc i + p < length expr" by arith
    then have n: "?s ! p = expr ! (Suc i + p)" using that by (simp add: slice_def)
    have "is_escaped ?s p = is_escaped (drop (Suc i) expr) p"
      unfolding slice_def using b by (intro is_escaped_take) simp_all
    also have "\<dots> = is_escaped expr (Suc i + p)"
      using nb l assms(2) by (intro is_escaped_drop) simp_all
    finally show "unescaped_quantifier ?s p = unescaped_quantifier expr (Suc i + p)"
      using n by (simp add: unescaped_quantifier_def)
  qed
  have "\<not> stacked_quantifier ?s p" if p: "p < length ?s" for p
  proof (cases p)
    case 0
    then show ?thesis by (simp add: stacked_quantifier_def)
  next
    case (Suc q)
    then have q: "q < length ?s" using p by simp
    show ?thesis
      using no_stacked_quantifierD [OF assms(1), of "Suc i + q"] len [OF p] uq [OF p] uq [OF q] Suc
      by (auto simp: stacked_quantifier_def)
  qed
  then show ?thesis by (simp add: no_stacked_quantifier_def list_all_iff)
qed


lemma expand_loop_no_postfix_quantifier:
  assumes "no_stacked_quantifier expr" "i \<le> length expr"
    "i < length expr \<longrightarrow> \<not> is_escaped expr i \<and> (is_quantifier (expr ! i) \<longrightarrow> out = [])"
    "no_postfix_quantifier out" "i < length expr \<longrightarrow> closed_end out"
  shows "no_postfix_quantifier (expand_loop expr i out)"
  using assms
proof (induction expr i out rule: expand_loop.induct)
  case (1 expr i out)
  let ?n = "length expr"
  note ns = \<open>no_stacked_quantifier expr\<close>
  show ?case
  proof (cases "i < ?n")
    case False
    then show ?thesis using "1.prems"(4) by (subst expand_loop.simps) simp
  next
    case lt: True
    then have ne: "\<not> is_escaped expr i" and first: "is_quantifier (expr ! i) \<longrightarrow> out = []"
      and tout: "tidy out"
      using "1.prems"(3,4,5) by (simp_all add: tidy_def)
    define unit where "unit =
      (if expr ! i = bslash \<and> i + 1 < length expr
          then (slice expr i (i + 2), i + 2)
          else if expr ! i = of_char CHR ''('' \<and> \<not> is_escaped expr i
               then let i2 = scan_group expr (i + 1) 1;
                        inner = slice expr (i + 1) (i2 - 1)
                    in (py ''('' @ expand_loop inner 0 [] @ py '')'', i2)
               else ([expr ! i], i + 1))"
    obtain token i1 where unit: "(token, i1) = unit" by (metis surj_pair)
    have "expand_loop expr i out =
      (let (token, i1) = unit
       in if i1 < length expr \<and> \<not> is_escaped expr i1 \<and>
               [expr ! i1] \<in> set [py ''+'', py ''?'']
            then (let op = [expr ! i1]
                  in if op = py ''+''
                     then expand_loop expr (i1 + 1) (out @ token @ token @ py ''*'')
                     else expand_loop expr (i1 + 1)
                            (out @ py ''('' @ token @ py ''|'' @ epsilon @ py '')''))
            else expand_loop expr i1 (out @ token))"
      unfolding unit_def by (subst expand_loop.simps) (simp only: lt if_True)
    then have step: "expand_loop expr i out =
      (if i1 < length expr \<and> \<not> is_escaped expr i1 \<and>
               [expr ! i1] \<in> set [py ''+'', py ''?'']
            then (if [expr ! i1] = py ''+''
                     then expand_loop expr (i1 + 1) (out @ token @ token @ py ''*'')
                     else expand_loop expr (i1 + 1)
                            (out @ py ''('' @ token @ py ''|'' @ epsilon @ py '')''))
            else expand_loop expr i1 (out @ token))"
      by (simp only: unit [symmetric] Let_def prod.case)
    have props: "i < i1 \<and> i1 \<le> ?n \<and> (i1 < ?n \<longrightarrow> \<not> is_escaped expr i1) \<and>
        (plain token \<or>
         (token = [expr ! i] \<and> i1 = i + 1 \<and> is_quantifier (expr ! i)) \<or>
         (token = [bslash] \<and> i1 = ?n))"
    proof (cases "expr ! i = bslash \<and> i + 1 < ?n")
      case pair: True
      then have "unit = ([bslash, expr ! Suc i], Suc (Suc i))"
        using slice_pair [of i expr] by (simp add: unit_def)
      moreover have "\<not> is_escaped expr (Suc (Suc i))"
        using pair ne by (simp add: is_escaped_Suc)
      ultimately show ?thesis
        using unit pair plain_pair [of "expr ! Suc i"] by auto
    next
      case nopair: False
      show ?thesis
      proof (cases "expr ! i = of_char CHR ''(''")
        case True
        let ?i2 = "scan_group expr (i + 1) 1"
        let ?inner = "slice expr (i + 1) (?i2 - 1)"
        have nsi: "no_stacked_quantifier ?inner"
          using no_stacked_quantifier_slice [OF ns lt] True by (simp add: py_def)
        have q0: "0 < length ?inner \<longrightarrow>
            \<not> is_escaped ?inner 0 \<and> (is_quantifier (?inner ! 0) \<longrightarrow> ([]::pystr) = [])"
          by (simp add: is_escaped_0)
        have e0: "no_postfix_quantifier []" by (simp add: no_postfix_quantifier_def)
        have "no_postfix_quantifier (expand_loop ?inner 0 [])"
          using "1.IH"(1) [OF lt nopair _ refl refl nsi _ q0 e0] True ne
          by (simp add: closed_end_def is_escaped_0)
        then have pt: "plain (py ''('' @ expand_loop ?inner 0 [] @ py '')'')"
          by (rule plain_group)
        have gt: "i < ?i2" using scan_group_ge [of "i + 1" expr 1] by simp
        have le: "?i2 \<le> ?n" using scan_group_le [of "i + 1" expr 1] lt by simp
        have "\<not> is_escaped expr ?i2" if "?i2 < ?n"
        proof -
          have "expr ! (?i2 - 1) = of_char CHR '')''"
            using scan_group_stops_after_paren [of 1 expr "i + 1"] that by simp
          moreover have "?i2 = Suc (?i2 - 1)" using gt by simp
          ultimately show ?thesis
            using is_escaped_Suc [of expr "?i2 - 1"] by (simp add: bslash_def)
        qed
        moreover have "unit = (py ''('' @ expand_loop ?inner 0 [] @ py '')'', ?i2)"
          using True nopair ne by (auto simp: unit_def Let_def bslash_def)
        ultimately show ?thesis using unit pt gt le by auto
      next
        case False
        then have u: "unit = ([expr ! i], i + 1)" using nopair by (simp add: unit_def)
        have e: "\<not> is_escaped expr (Suc i)" if "Suc i < ?n"
          using that nopair by (simp add: is_escaped_Suc)
        have "plain [expr ! i] \<or> is_quantifier (expr ! i) \<or> (expr ! i = bslash \<and> Suc i = ?n)"
          using plain_single [of "expr ! i"] nopair lt by auto
        then show ?thesis
          using unit u e lt by auto
      qed
    qed
    show ?thesis
    proof (cases "i1 < ?n \<and> \<not> is_escaped expr i1 \<and> [expr ! i1] \<in> set [py ''+'', py ''?'']")
      case fires: True
      then have q: "unescaped_quantifier expr i1"
        by (simp add: unescaped_quantifier_def is_quantifier_def)
      have pt: "plain token"
      proof -
        have "\<not> (token = [expr ! i] \<and> i1 = i + 1 \<and> is_quantifier (expr ! i))"
        proof
          assume a: "token = [expr ! i] \<and> i1 = i + 1 \<and> is_quantifier (expr ! i)"
          then have "unescaped_quantifier expr i" using ne by (simp add: unescaped_quantifier_def)
          then show False
            using no_stacked_quantifierD [OF ns, of i] a fires q by simp
        qed
        then show ?thesis using props fires by auto
      qed
      have nbs: "expr ! i1 \<noteq> bslash" using fires by (auto simp: py_def bslash_def)
      have nxt: "i1 + 1 < ?n \<longrightarrow>
          \<not> is_escaped expr (i1 + 1) \<and> (is_quantifier (expr ! (i1 + 1)) \<longrightarrow> out' = [])" for out'
      proof
        assume l: "i1 + 1 < ?n"
        have e: "\<not> is_escaped expr (i1 + 1)" using nbs by (simp add: is_escaped_Suc)
        moreover have "\<not> unescaped_quantifier expr (Suc i1)"
          using no_stacked_quantifierD [OF ns _ q] l by simp
        ultimately show "\<not> is_escaped expr (i1 + 1) \<and>
            (is_quantifier (expr ! (i1 + 1)) \<longrightarrow> out' = [])"
          by (simp add: unescaped_quantifier_def)
      qed
      have le: "i1 + 1 \<le> ?n" using fires by simp
      show ?thesis
      proof (cases "[expr ! i1] = py ''+''")
        case True
        have "plain (token @ token @ py ''*'')"
          using pt plain_consts by (intro plain_append)
        then have "tidy (out @ token @ token @ py ''*'')"
          using tout by (rule tidy_append_plain [rotated])
        then have "no_postfix_quantifier
            (expand_loop expr (i1 + 1) (out @ token @ token @ py ''*''))"
          using "1.IH"(2) [OF lt unit_def unit fires refl True ns le nxt]
          by (simp add: tidy_def)
        then show ?thesis
          by (subst step) (simp only: if_P [OF fires] if_P [OF True])
      next
        case False
        have "plain (py ''('' @ token @ py ''|'' @ epsilon @ py '')'')"
          using pt plain_consts by (intro plain_append)
        then have "tidy (out @ py ''('' @ token @ py ''|'' @ epsilon @ py '')'')"
          using tout by (rule tidy_append_plain [rotated])
        then have "no_postfix_quantifier (expand_loop expr (i1 + 1)
                (out @ py ''('' @ token @ py ''|'' @ epsilon @ py '')''))"
          using "1.IH"(3) [OF lt unit_def unit fires refl False ns le nxt]
          by (simp add: tidy_def)
        then show ?thesis
          by (subst step) (simp only: if_P [OF fires] if_not_P [OF False])
      qed
    next
      case nofire: False
      have st: "i1 < ?n \<longrightarrow>
          \<not> is_escaped expr i1 \<and> (is_quantifier (expr ! i1) \<longrightarrow> out @ token = [])"
        using nofire props by (auto simp: is_quantifier_def)
      have body: "no_postfix_quantifier (out @ token) \<and> (i1 < ?n \<longrightarrow> closed_end (out @ token))"
      proof -
        consider (a) "plain token"
          | (b) "token = [expr ! i]" "is_quantifier (expr ! i)"
          | (c) "token = [bslash]" "i1 = ?n"
          using props by blast
        then show ?thesis
        proof cases
          case a
          then show ?thesis using tidy_append_plain [OF tout a] by (simp add: tidy_def)
        next
          case b
          then show ?thesis using first tidy_quantifier [of "expr ! i"] by (simp add: tidy_def)
        next
          case c
          have "no_postfix_quantifier (out @ [bslash])"
            using tout by (intro no_postfix_quantifier_snoc)
              (simp_all add: tidy_def is_quantifier_def py_def bslash_def)
          then show ?thesis using c by simp
        qed
      qed
      have "no_postfix_quantifier (expand_loop expr i1 (out @ token))"
        using "1.IH"(4) [OF lt unit_def unit nofire ns _ st] body props by simp
      then show ?thesis
        by (subst step) (simp only: if_not_P [OF nofire])
    qed
  qed
qed

section \<open>The claims\<close>

abbreviation leaf :: "pystr \<Rightarrow> RegexNode" where
  "leaf v \<equiv> RegexNode v None None"

text \<open>
  C1, as the specification states it: a \<open>(\<close> left on the operator stack at the end of
  the input is dropped without being emitted, and \<open>(a|b\<close> yields the tree of \<open>a|b\<close>.
  The source pops every remaining entry to the output, \<open>(\<close> included: for \<open>(a|b\<close> the
  postfix sequence is \<open>a b | (\<close>, the builder of \<open>shunting_yard_regex.py\<close> returns the
  leaf \<open>(\<close> that lies on top of its stack, not the tree of \<open>a|b\<close>, and the pipeline of
  \<open>shunting_yard_simp.py\<close> raises IndexError (its expansion turns \<open>(a|b\<close> into \<open>(a|)\<close>).
\<close>

theorem unmatched_open_paren_counterexample:
  "fst (shunting_yard_regex isalnum_basic (insert_concatenation (py ''(a|b''))) =
     [py ''a'', py ''b'', py ''|'', py ''(''] \<and>
   parse_regex isalnum_basic (py ''(a|b'') = Inr (leaf (py ''('')) \<and>
   parse_regex isalnum_basic (py ''a|b'') =
     Inr (RegexNode (py ''|'') (Some (leaf (py ''a''))) (Some (leaf (py ''b'')))) \<and>
   parse_simp isalnum_basic (py ''(a|b'') = Inl IndexError"
  by code_simp

text \<open>
  C1, amended: for every token sequence the postfix output is the output of the token
  loop followed by the whole remaining operator stack, top first, so every \<open>(\<close> left
  on the stack is emitted; for \<open>(a|b\<close> the postfix sequence is \<open>a b | (\<close> and the tree
  builder returns the leaf \<open>(\<close>.
\<close>

theorem leftover_stack_is_emitted:
  assumes "agrees_on_ascii isalnum"
  shows
    "fst (shunting_yard_regex isalnum tokens) =
       fst (sy_loop_regex isalnum tokens ([], [], [])) @
       fst (snd (sy_loop_regex isalnum tokens ([], [], []))) \<and>
     fst (shunting_yard_simp isalnum tokens) =
       fst (sy_loop_simp isalnum tokens ([], [], [])) @
       fst (snd (sy_loop_simp isalnum tokens ([], [], []))) \<and>
     insert_concatenation (py ''(a|b'') = [py ''('', py ''a'', py ''|'', py ''b''] \<and>
     fst (shunting_yard_regex isalnum [py ''('', py ''a'', py ''|'', py ''b'']) =
       [py ''a'', py ''b'', py ''|'', py ''(''] \<and>
     parse_regex isalnum (py ''(a|b'') = Inr (leaf (py ''(''))"
proof -
  have tokens: "insert_concatenation (py ''(a|b'') = [py ''('', py ''a'', py ''|'', py ''b'']"
    by (simp add: ic_defs)
  have postfix:
    "fst (shunting_yard_regex isalnum [py ''('', py ''a'', py ''|'', py ''b'']) =
       [py ''a'', py ''b'', py ''|'', py ''('']"
    using assms by (simp add: sy_defs agrees_on_asciiD)
  have tree: "build_syntax_tree [py ''a'', py ''b'', py ''|'', py ''(''] = Inr (leaf (py ''(''))"
    by (simp add: build_syntax_tree_def py_def)
  show ?thesis
    using tokens postfix tree
    by (simp add: fst_shunting_yard_regex [symmetric] fst_shunting_yard_simp [symmetric]
        parse_regex_def)
qed

theorem leftover_stack_is_emitted_witness:
  "agrees_on_ascii isalnum_basic \<and>
   sy_loop_regex isalnum_basic [py ''('', py ''('', py ''a''] ([], [], []) =
     ([py ''a''], [py ''('', py ''(''],
      [(py ''push ('', [], [py ''('']), (py ''push ('', [], [py ''('', py ''('']),
       (py ''operand a'', [py ''a''], [py ''('', py ''(''])]) \<and>
   fst (shunting_yard_regex isalnum_basic [py ''('', py ''('', py ''a'']) =
     [py ''a'', py ''('', py ''('']"
  using leftover_stack_is_emitted [OF agrees_on_ascii_basic, of "[py ''('', py ''('', py ''a'']"]
    agrees_on_ascii_basic
  by (simp add: sy_defs isalnum_basic_def)

text \<open>
  C2, as the specification states it: when more than one node is left on the operand
  stack after the last token, \<open>build_syntax_tree\<close> fails with MalformedTree and returns
  no node. The source returns \<open>stack.pop()\<close> whatever the size of the stack: for the
  postfix sequence \<open>a b\<close> two nodes are left and the leaf \<open>b\<close> is returned.
\<close>

theorem malformed_tree_counterexample:
  "build_loop [py ''a'', py ''b''] [] = Inr [leaf (py ''b''), leaf (py ''a'')] \<and>
   build_syntax_tree [py ''a'', py ''b''] = Inr (leaf (py ''b''))"
  by (simp add: build_syntax_tree_def py_def)

text \<open>
  C2, amended: for every postfix sequence, if the token loop ends with at least one node
  on the operand stack, \<open>build_syntax_tree\<close> returns the node on top of it, however many
  nodes lie below; it fails (IndexError) only when the loop itself failed or left the
  stack empty. There is no MalformedTree failure: a non-empty sequence of literals
  only, which leaves one node per token on the stack, returns the leaf of its last token.
\<close>

theorem build_returns_top_of_stack:
  "(build_loop toks [] = Inr (node # rest) \<longrightarrow> build_syntax_tree toks = Inr node) \<and>
   (build_loop toks [] = Inr [] \<longrightarrow> build_syntax_tree toks = Inl IndexError) \<and>
   (build_loop toks [] = Inl e \<longrightarrow> build_syntax_tree toks = Inl e) \<and>
   (toks \<noteq> [] \<and> set toks \<inter> set [py ''*'', py ''+'', py ''?'', py ''.'', py ''|''] = {} \<longrightarrow>
      build_loop toks [] = Inr (map leaf (rev toks)) \<and>
      build_syntax_tree toks = Inr (leaf (last toks)))"
proof -
  have "build_loop toks [] = Inr (map leaf (rev toks)) \<and>
        build_syntax_tree toks = Inr (leaf (last toks))"
    if ne: "toks \<noteq> []"
      and lit: "set toks \<inter> set [py ''*'', py ''+'', py ''?'', py ''.'', py ''|''] = {}"
  proof -
    have loop: "build_loop toks [] = Inr (map leaf (rev toks))"
      using build_loop_literals [OF lit, of "[]"] by simp
    moreover have "map leaf (rev toks) = leaf (last toks) # map leaf (rev (butlast toks))"
      using ne by (metis append_butlast_last_id list.simps(9) rev.simps(2) rev_rev_ident
          rev_swap)
    ultimately show ?thesis by (simp add: build_syntax_tree_def)
  qed
  moreover have
    "(build_loop toks [] = Inr (node # rest) \<longrightarrow> build_syntax_tree toks = Inr node) \<and>
     (build_loop toks [] = Inr [] \<longrightarrow> build_syntax_tree toks = Inl IndexError) \<and>
     (build_loop toks [] = Inl e \<longrightarrow> build_syntax_tree toks = Inl e)"
    by (simp add: build_syntax_tree_def)
  ultimately show ?thesis by blast
qed

theorem build_returns_top_of_stack_witness:
  "build_loop [py ''a'', py ''*'', py ''b'', py ''c''] [] =
     Inr [leaf (py ''c''), leaf (py ''b''), RegexNode (py ''*'') (Some (leaf (py ''a''))) None] \<and>
   build_syntax_tree [py ''a'', py ''*'', py ''b'', py ''c''] = Inr (leaf (py ''c'')) \<and>
   [py ''x'', py ''y'', py ''z''] \<noteq> [] \<and>
   set [py ''x'', py ''y'', py ''z''] \<inter> set [py ''*'', py ''+'', py ''?'', py ''.'', py ''|''] = {} \<and>
   build_syntax_tree [py ''x'', py ''y'', py ''z''] = Inr (leaf (py ''z''))"
proof -
  have loop: "build_loop [py ''a'', py ''*'', py ''b'', py ''c''] [] =
      Inr [leaf (py ''c''), leaf (py ''b''), RegexNode (py ''*'') (Some (leaf (py ''a''))) None]"
    by (simp add: py_def)
  have lit: "[py ''x'', py ''y'', py ''z''] \<noteq> []"
    "set [py ''x'', py ''y'', py ''z''] \<inter> set [py ''*'', py ''+'', py ''?'', py ''.'', py ''|''] = {}"
    by (simp_all add: py_def)
  from build_returns_top_of_stack
      [of "[py ''a'', py ''*'', py ''b'', py ''c'']" "leaf (py ''c'')"
          "[leaf (py ''b''), RegexNode (py ''*'') (Some (leaf (py ''a''))) None]"] loop
  have 1: "build_syntax_tree [py ''a'', py ''*'', py ''b'', py ''c''] = Inr (leaf (py ''c''))"
    by blast
  from build_returns_top_of_stack [of "[py ''x'', py ''y'', py ''z'']"] lit
  have 2: "build_syntax_tree [py ''x'', py ''y'', py ''z''] = Inr (leaf (py ''z''))"
    by simp
  from loop lit 1 2 show ?thesis by blast
qed

text \<open>
  C3, as the specification states it: running the inserter on the string of a token
  sequence that already holds explicit \<open>.\<close> tokens inserts no further \<open>.\<close>. The test of
  the source excludes \<open>.\<close> on neither side: \<open>ab\<close> gives \<open>a . b\<close>, and the string \<open>a.b\<close>
  of these tokens gives \<open>a . . . b\<close>.
\<close>

theorem insertion_idempotence_counterexample:
  "insert_concatenation (py ''ab'') = [py ''a'', py ''.'', py ''b''] \<and>
   concat (insert_concatenation (py ''ab'')) = py ''a.b'' \<and>
   insert_concatenation (py ''a.b'') =
     [py ''a'', py ''.'', py ''.'', py ''.'', py ''b'']"
  by (simp add: ic_defs)

text \<open>
  C3, amended: the inserter treats an explicit \<open>.\<close> as any other token, so insertion is
  not idempotent. On a string \<open>x.y\<close>, where \<open>x\<close> is one character other than a backslash,
  \<open>|\<close> and \<open>(\<close>, and \<open>y\<close> is one character other than \<open>|\<close>, \<open>)\<close>, \<open>*\<close>, \<open>+\<close>, \<open>?\<close>, it inserts one
  \<open>.\<close> on each side of the explicit one: the result is \<open>x . . . y\<close>.
\<close>

theorem explicit_dot_gets_two_more:
  assumes "x \<noteq> bslash"
    and "[x] \<notin> set [py ''|'', py ''('']"
    and "[y] \<notin> set [py ''|'', py '')'', py ''*'', py ''+'', py ''?'']"
  shows "insert_concatenation ([x] @ py ''.'' @ [y]) = [[x], py ''.'', py ''.'', py ''.'', [y]]"
  using assms by (simp add: ic_defs)

theorem explicit_dot_gets_two_more_witness:
  "(99::nat) \<noteq> bslash \<and> [99] \<notin> set [py ''|'', py ''(''] \<and>
   [100] \<notin> set [py ''|'', py '')'', py ''*'', py ''+'', py ''?''] \<and>
   py ''c.d'' = [99] @ py ''.'' @ [100] \<and>
   insert_concatenation (py ''c.d'') = [py ''c'', py ''.'', py ''.'', py ''.'', py ''d'']"
proof -
  have h1: "(99::nat) \<noteq> bslash" by (simp add: bslash_def)
  have h2: "[99] \<notin> set [py ''|'', py ''('']" by (simp add: py_def)
  have h3: "[100] \<notin> set [py ''|'', py '')'', py ''*'', py ''+'', py ''?'']" by (simp add: py_def)
  have e: "py ''c.d'' = [99] @ py ''.'' @ [100]" "py ''c'' = [99]" "py ''d'' = [100]"
    by (simp_all add: py_def)
  show ?thesis
    using explicit_dot_gets_two_more [OF h1 h2 h3] h1 h2 h3 e by simp
qed

text \<open>
  C4: whenever an operator token is reached with fewer nodes on the operand stack than
  it pops (one for \<open>*\<close>, \<open>+\<close>, \<open>?\<close>; two for \<open>.\<close>, \<open>|\<close>), \<open>build_syntax_tree\<close> fails and returns
  no node, whatever follows; the sequence \<open>a * .\<close> is such a case. The failure is the
  IndexError of \<open>stack.pop()\<close> on an empty list, which the source does not catch.
\<close>

theorem build_underflow_raises:
  assumes "build_loop pre [] = Inr stack"
    and "(op \<in> set [py ''*'', py ''+'', py ''?''] \<and> length stack < 1) \<or>
         (op \<in> set [py ''.'', py ''|''] \<and> length stack < 2)"
  shows "build_syntax_tree (pre @ op # suf) = Inl IndexError"
proof -
  have "build_step op stack = Inl IndexError"
    using assms(2) by (cases stack; cases "tl stack") (auto simp: py_def)
  then show ?thesis
    using assms(1) by (simp add: build_syntax_tree_def build_loop_append)
qed

theorem build_underflow_raises_witness:
  "build_loop [py ''a'', py ''*''] [] = Inr [RegexNode (py ''*'') (Some (leaf (py ''a''))) None] \<and>
   py ''.'' \<in> set [py ''.'', py ''|''] \<and>
   length [RegexNode (py ''*'') (Some (leaf (py ''a''))) None] < 2 \<and>
   build_syntax_tree [py ''a'', py ''*'', py ''.''] = Inl IndexError"
proof -
  have loop: "build_loop [py ''a'', py ''*''] [] =
      Inr [RegexNode (py ''*'') (Some (leaf (py ''a''))) None]"
    by (simp add: py_def)
  have "build_syntax_tree ([py ''a'', py ''*''] @ py ''.'' # []) = Inl IndexError"
    by (rule build_underflow_raises [OF loop]) simp
  with loop show ?thesis by simp
qed

text \<open>
  C5: for \<open>a|bc*\<close> the inserter gives the tokens \<open>a | b . c *\<close>, the converter maps them
  to the postfix sequence \<open>a b c * . |\<close>, and \<open>precedence\<close> ranks the three quantifiers
  alike, above \<open>.\<close>, which is above \<open>|\<close>.
\<close>

theorem precedence_law:
  assumes "agrees_on_ascii isalnum"
  shows
    "insert_concatenation (py ''a|bc*'') =
       [py ''a'', py ''|'', py ''b'', py ''.'', py ''c'', py ''*''] \<and>
     fst (shunting_yard_regex isalnum [py ''a'', py ''|'', py ''b'', py ''.'', py ''c'', py ''*'']) =
       [py ''a'', py ''b'', py ''c'', py ''*'', py ''.'', py ''|''] \<and>
     (\<forall>q \<in> set [py ''*'', py ''+'', py ''?'']. precedence (py ''.'') < precedence q) \<and>
     precedence (py ''*'') = precedence (py ''+'') \<and>
     precedence (py ''+'') = precedence (py ''?'') \<and>
     precedence (py ''|'') < precedence (py ''.'')"
proof -
  have tokens: "insert_concatenation (py ''a|bc*'') =
      [py ''a'', py ''|'', py ''b'', py ''.'', py ''c'', py ''*'']"
    by (simp add: ic_defs)
  have postfix:
    "fst (shunting_yard_regex isalnum [py ''a'', py ''|'', py ''b'', py ''.'', py ''c'', py ''*'']) =
       [py ''a'', py ''b'', py ''c'', py ''*'', py ''.'', py ''|'']"
    using assms by (simp add: sy_defs agrees_on_asciiD)
  have order: "(\<forall>q \<in> set [py ''*'', py ''+'', py ''?'']. precedence (py ''.'') < precedence q) \<and>
     precedence (py ''*'') = precedence (py ''+'') \<and>
     precedence (py ''+'') = precedence (py ''?'') \<and>
     precedence (py ''|'') < precedence (py ''.'')"
    by (simp add: py_def)
  from tokens postfix order show ?thesis by blast
qed

theorem precedence_law_witness:
  "agrees_on_ascii isalnum_basic \<and>
   fst (shunting_yard_regex isalnum_basic (insert_concatenation (py ''a|bc*''))) =
     [py ''a'', py ''b'', py ''c'', py ''*'', py ''.'', py ''|''] \<and>
   precedence (py ''|'') = 1 \<and> precedence (py ''.'') = 2 \<and> precedence (py ''*'') = 3 \<and>
   precedence (py ''+'') = 3 \<and> precedence (py ''?'') = 3"
proof -
  have prec: "precedence (py ''|'') = 1 \<and> precedence (py ''.'') = 2 \<and>
      precedence (py ''*'') = 3 \<and> precedence (py ''+'') = 3 \<and> precedence (py ''?'') = 3"
    by (simp add: py_def)
  show ?thesis
    using precedence_law [OF agrees_on_ascii_basic] agrees_on_ascii_basic prec by simp
qed

text \<open>
  C6: for \<open>(a|b)c\<close> the inserter gives the tokens \<open>( a | b ) . c\<close> and the converter maps
  them to the postfix sequence \<open>a b | c .\<close>: the group is closed before the
  concatenation is pushed.
\<close>

theorem grouping_overrides_precedence:
  assumes "agrees_on_ascii isalnum"
  shows
    "insert_concatenation (py ''(a|b)c'') =
       [py ''('', py ''a'', py ''|'', py ''b'', py '')'', py ''.'', py ''c''] \<and>
     fst (shunting_yard_regex isalnum
            [py ''('', py ''a'', py ''|'', py ''b'', py '')'', py ''.'', py ''c'']) =
       [py ''a'', py ''b'', py ''|'', py ''c'', py ''.'']"
proof -
  have tokens: "insert_concatenation (py ''(a|b)c'') =
      [py ''('', py ''a'', py ''|'', py ''b'', py '')'', py ''.'', py ''c'']"
    by (simp add: ic_defs)
  have postfix:
    "fst (shunting_yard_regex isalnum
            [py ''('', py ''a'', py ''|'', py ''b'', py '')'', py ''.'', py ''c'']) =
       [py ''a'', py ''b'', py ''|'', py ''c'', py ''.'']"
    using assms by (simp add: sy_defs agrees_on_asciiD)
  from tokens postfix show ?thesis by blast
qed

theorem grouping_overrides_precedence_witness:
  "agrees_on_ascii isalnum_basic \<and>
   fst (shunting_yard_regex isalnum_basic (insert_concatenation (py ''(a|b)c''))) =
     [py ''a'', py ''b'', py ''|'', py ''c'', py ''.'']"
  using grouping_overrides_precedence [OF agrees_on_ascii_basic] agrees_on_ascii_basic
  by simp

text \<open>
  C7, as the specification states it: the three example expansions, and for every input
  string an output without any \<open>+\<close> or \<open>?\<close> standing as a postfix operator after a unit.
  The examples hold. The general part fails: the loop consumes one quantifier per unit,
  and a \<open>+\<close> or \<open>?\<close> found where a unit starts is copied as a literal unit. \<open>a++\<close> gives
  \<open>aa*+\<close>, in which \<open>+\<close> follows the unit \<open>a*\<close>; the expander itself, run on \<open>aa*+\<close>, reads
  that \<open>+\<close> as a quantifier of the unit \<open>*\<close> and rewrites it.
\<close>

theorem stacked_quantifier_counterexample:
  "expand_plus_question (py ''a++'') = py ''aa*+'' \<and>
   expand_plus_question (py ''aa*+'') = py ''aa***'' \<and>
   \<not> quantifier_free (expand_plus_question (py ''a++'')) \<and>
   \<not> no_postfix_quantifier (expand_plus_question (py ''a++''))"
  by code_simp

text \<open>
  C7, amended: the expander maps \<open>a+\<close> to \<open>aa*\<close>, \<open>a?\<close> to \<open>(a|\<epsilon>)\<close> and \<open>(ab)+\<close> to
  \<open>(ab)(ab)*\<close>, the interior \<open>ab\<close> being expanded to itself; and for every input string
  in which no unescaped \<open>+\<close> or \<open>?\<close> directly follows another unescaped \<open>+\<close> or \<open>?\<close>, the
  output contains no unescaped \<open>+\<close> or \<open>?\<close> occurring as a postfix operator after a unit.
\<close>

theorem quantifier_expansion:
  "expand_plus_question (py ''a+'') = py ''aa*'' \<and>
   expand_plus_question (py ''a?'') = py ''(a|'' @ epsilon @ py '')'' \<and>
   expand_plus_question (py ''(ab)+'') = py ''(ab)(ab)*'' \<and>
   expand_plus_question (py ''ab'') = py ''ab'' \<and>
   (no_stacked_quantifier expr \<longrightarrow> no_postfix_quantifier (expand_plus_question expr))"
proof -
  have examples:
    "expand_plus_question (py ''a+'') = py ''aa*''"
    "expand_plus_question (py ''a?'') = py ''(a|'' @ epsilon @ py '')''"
    "expand_plus_question (py ''(ab)+'') = py ''(ab)(ab)*''"
    "expand_plus_question (py ''ab'') = py ''ab''"
    by (simp_all add: expand_plus_question_def expand_loop.simps scan_group.simps py_def
        bslash_def slice_def is_escaped_def epsilon_def)
  have "no_postfix_quantifier (expand_plus_question expr)" if ns: "no_stacked_quantifier expr"
    unfolding expand_plus_question_def
    using expand_loop_no_postfix_quantifier [OF ns, of 0 "[]"]
    by (simp add: is_escaped_0 no_postfix_quantifier_def closed_end_def)
  with examples show ?thesis by blast
qed

theorem quantifier_expansion_witness:
  "no_stacked_quantifier (py ''+a?(?b)+'' @ [bslash] @ py ''+c+'') \<and>
   expand_plus_question (py ''+a?(?b)+'' @ [bslash] @ py ''+c+'') =
     py ''+(a|'' @ epsilon @ py '')(?b)(?b)*'' @ [bslash] @ py ''+cc*'' \<and>
   no_postfix_quantifier (expand_plus_question (py ''+a?(?b)+'' @ [bslash] @ py ''+c+''))"
proof -
  have ns: "no_stacked_quantifier (py ''+a?(?b)+'' @ [bslash] @ py ''+c+'')"
    by code_simp
  have ex: "expand_plus_question (py ''+a?(?b)+'' @ [bslash] @ py ''+c+'') =
     py ''+(a|'' @ epsilon @ py '')(?b)(?b)*'' @ [bslash] @ py ''+cc*''"
    by code_simp
  from quantifier_expansion [of "py ''+a?(?b)+'' @ [bslash] @ py ''+c+''"] ns
  have "no_postfix_quantifier (expand_plus_question (py ''+a?(?b)+'' @ [bslash] @ py ''+c+''))"
    by blast
  with ns ex show ?thesis by blast
qed

text \<open>
  C8: a unary operator node takes the single popped node as its left child and has no
  right child; a binary operator node takes the node popped first as its right child and
  the node popped second as its left child. For the postfix sequence \<open>a b . c |\<close> the
  root is \<open>|\<close>, its left child is \<open>.\<close> over the leaves \<open>a\<close> (left) and \<open>b\<close> (right), and
  its right child is the leaf \<open>c\<close>.
\<close>

theorem tree_shape:
  "(tok \<in> set [py ''*'', py ''+'', py ''?''] \<longrightarrow>
      build_step tok (child # stack) = Inr (RegexNode tok (Some child) None # stack)) \<and>
   (tok \<in> set [py ''.'', py ''|''] \<longrightarrow>
      build_step tok (popped1 # popped2 # stack) =
        Inr (RegexNode tok (Some popped2) (Some popped1) # stack)) \<and>
   build_syntax_tree [py ''a'', py ''b'', py ''.'', py ''c'', py ''|''] =
     Inr (RegexNode (py ''|'')
           (Some (RegexNode (py ''.'') (Some (leaf (py ''a''))) (Some (leaf (py ''b'')))))
           (Some (leaf (py ''c''))))"
  by (auto simp: py_def build_syntax_tree_def)

theorem tree_shape_witness:
  "py ''?'' \<in> set [py ''*'', py ''+'', py ''?''] \<and>
   build_step (py ''?'') [leaf (py ''x'')] = Inr [RegexNode (py ''?'') (Some (leaf (py ''x''))) None] \<and>
   py ''|'' \<in> set [py ''.'', py ''|''] \<and>
   build_step (py ''|'') [leaf (py ''y''), leaf (py ''x'')] =
     Inr [RegexNode (py ''|'') (Some (leaf (py ''x''))) (Some (leaf (py ''y'')))]"
proof -
  have u: "py ''?'' \<in> set [py ''*'', py ''+'', py ''?'']" by simp
  have b: "py ''|'' \<in> set [py ''.'', py ''|'']" by simp
  from tree_shape [of "py ''?''" "leaf (py ''x'')" "[]"] u
  have 1: "build_step (py ''?'') [leaf (py ''x'')] =
      Inr [RegexNode (py ''?'') (Some (leaf (py ''x''))) None]"
    by blast
  from tree_shape [of "py ''|''" _ "[]" "leaf (py ''y'')" "leaf (py ''x'')"] b
  have 2: "build_step (py ''|'') [leaf (py ''y''), leaf (py ''x'')] =
      Inr [RegexNode (py ''|'') (Some (leaf (py ''x''))) (Some (leaf (py ''y'')))]"
    by blast
  from u b 1 2 show ?thesis by blast
qed

text \<open>
  C9, as the specification states it: the tokenizer terminates without error, and a
  trailing unescaped backslash is dropped, producing no token. The tokenizer is the
  first loop of \<open>insert_concatenation\<close>; its \<open>else\<close> branch appends the last backslash as
  a one-character token: \<open>a\\\<close> gives the tokens \<open>a\<close> and \<open>\\\<close>.
\<close>

theorem trailing_backslash_counterexample:
  "tokenize (py ''a'' @ [bslash]) = [py ''a'', [bslash]] \<and>
   insert_concatenation (py ''a'' @ [bslash]) = [py ''a'', py ''.'', [bslash]]"
  by (simp add: ic_defs)

text \<open>
  C9, amended: the tokenizer terminates on every input string with no error condition
  (\<open>tokenize\<close> is total, and reads no index out of range) and drops no character: the
  tokens, joined, are the input. For every input string that ends in an unescaped
  backslash, that backslash is the last token, a token of one character.
\<close>

theorem trailing_backslash_is_a_token:
  "concat (tokenize expr) = expr \<and>
   (expr \<noteq> [] \<and> last expr = bslash \<and> \<not> is_escaped expr (length expr - 1) \<longrightarrow>
      tokenize expr \<noteq> [] \<and> last (tokenize expr) = [bslash])"
proof -
  have "tokenize expr \<noteq> [] \<and> last (tokenize expr) = [bslash]"
    if ne: "expr \<noteq> []" and lst: "last expr = bslash"
      and esc: "\<not> is_escaped expr (length expr - 1)"
  proof -
    have "0 < length expr" "expr ! (length expr - 1) = bslash"
      using ne lst by (simp_all add: last_conv_nth)
    then obtain ts where "tokenize_loop expr 0 [] = ts @ [[bslash]]"
      using tokenize_loop_last [of 0 expr "[]"] esc is_escaped_0 by blast
    then show ?thesis by (simp add: tokenize_def)
  qed
  then show ?thesis by (simp add: tokenize_concat)
qed

theorem trailing_backslash_is_a_token_witness:
  "py ''x'' @ [bslash, bslash, bslash] \<noteq> [] \<and>
   last (py ''x'' @ [bslash, bslash, bslash]) = bslash \<and>
   \<not> is_escaped (py ''x'' @ [bslash, bslash, bslash]) (length (py ''x'' @ [bslash, bslash, bslash]) - 1) \<and>
   tokenize (py ''x'' @ [bslash, bslash, bslash]) = [py ''x'', [bslash, bslash], [bslash]] \<and>
   last (tokenize (py ''x'' @ [bslash, bslash, bslash])) = [bslash]"
proof -
  have h: "py ''x'' @ [bslash, bslash, bslash] \<noteq> []"
    "last (py ''x'' @ [bslash, bslash, bslash]) = bslash"
    "\<not> is_escaped (py ''x'' @ [bslash, bslash, bslash]) (length (py ''x'' @ [bslash, bslash, bslash]) - 1)"
    by (simp_all add: py_def is_escaped_def bslash_def)
  have t: "tokenize (py ''x'' @ [bslash, bslash, bslash]) = [py ''x'', [bslash, bslash], [bslash]]"
    by (simp add: ic_defs)
  from trailing_backslash_is_a_token [of "py ''x'' @ [bslash, bslash, bslash]"] h
  have "last (tokenize (py ''x'' @ [bslash, bslash, bslash])) = [bslash]" by blast
  with h t show ?thesis by blast
qed

text \<open>
  C10: the two \<open>shunting_yard\<close> functions return the same pair (postfix output, trace)
  on every token sequence, and their operand tests are the same predicate, because
  \<open>'\<epsilon>'.isalnum()\<close> is true: the extra list element of \<open>shunting_yard_simp.py\<close> adds
  nothing. That value of \<open>str.isalnum\<close> is the hypothesis on the table.
\<close>

theorem shunting_yard_variants_agree:
  assumes "isalnum epsilon"
  shows "is_operand_regex isalnum = is_operand_simp isalnum \<and>
         shunting_yard_regex isalnum tokens = shunting_yard_simp isalnum tokens"
  using assms by (simp add: shunting_yard_regex_def shunting_yard_simp_def sy_loop_eq is_operand_eq)

theorem shunting_yard_variants_agree_witness:
  "isalnum_basic epsilon \<and>
   shunting_yard_regex isalnum_basic [epsilon, py ''|'', py ''a''] =
     shunting_yard_simp isalnum_basic [epsilon, py ''|'', py ''a''] \<and>
   fst (shunting_yard_simp isalnum_basic [epsilon, py ''|'', py ''a'']) =
     [epsilon, py ''a'', py ''|'']"
proof -
  have "fst (shunting_yard_simp isalnum_basic [epsilon, py ''|'', py ''a'']) =
      [epsilon, py ''a'', py ''|'']"
    by (simp add: sy_defs isalnum_basic_def)
  with shunting_yard_variants_agree [of isalnum_basic "[epsilon, py ''|'', py ''a'']"]
    isalnum_basic_epsilon
  show ?thesis by blast
qed

end
